theory Spec2Isabelle
  imports
    Complex_Main
    "HOL-Library.AList"
    "HOL-Library.Char_ord"
    "HOL-Library.List_Lexorder"
    "HOL-Library.Multiset"
    "HOL-Library.Product_Lexorder"
begin

section \<open>FlavorGraph: the recipe suggestion engine\<close>

text \<open>
  A shallow embedding of \<^verbatim>\<open>flavorgraph/engine.py\<close>. Python strings are ASCII text
  modelled as \<^typ>\<open>string\<close>, ordered by code point (the lexicographic order on lists of
  characters). Python sets of strings are HOL sets, insertion-ordered dictionaries are
  association lists maintained with \<^const>\<open>AList.update\<close> (an existing key keeps its
  position and takes the new value, a new key goes to the end), and dictionaries that are
  only ever looked up are maps. Python integers are \<^typ>\<open>int\<close>. Scores are Python
  floats; they are computed here with exact rationals (\<open>0.2\<close> as \<open>1/5\<close>,
  \<open>1.5\<close> as \<open>3/2\<close>), so rounding of IEEE doubles is not represented. Apart
  from the scorer's own formulas, the results below compare scores with each other and
  with the score 0 of the empty plan, and use nothing else of the arithmetic.

  Functions keep their Python names without the leading underscore. A lookup
  \<^verbatim>\<open>d[k]\<close> that can raise is a value of \<open>py_error + 'a\<close>.
\<close>

subsection \<open>Python primitives\<close>

datatype py_error = KeyError

text \<open>\<^verbatim>\<open>d.get(k, default)\<close> on a dictionary that is only looked up.\<close>

definition dict_get :: "('k \<rightharpoonup> 'v) \<Rightarrow> 'k \<Rightarrow> 'v \<Rightarrow> 'v" where
  "dict_get d k dflt = (case d k of None \<Rightarrow> dflt | Some v \<Rightarrow> v)"

text \<open>
  A dict comprehension \<^verbatim>\<open>{k: v for ...}\<close> and repeated \<^verbatim>\<open>d[k] = v\<close>: entries are
  stored left to right, a repeated key overwrites its value in place.
\<close>

definition dict_of :: "('k \<times> 'v) list \<Rightarrow> ('k \<times> 'v) list" where
  "dict_of kvs = foldl (\<lambda>d (k, v). AList.update k v d) [] kvs"

text \<open>
  The slice \<^verbatim>\<open>xs[:n]\<close>: the first \<open>n\<close> elements for \<open>n \<ge> 0\<close>, and all but the last
  \<open>-n\<close> elements for a negative \<open>n\<close>.
\<close>

definition slice_to :: "int \<Rightarrow> 'a list \<Rightarrow> 'a list" where
  "slice_to n xs = (if 0 \<le> n then take (nat n) xs else take (length xs - nat (- n)) xs)"

text \<open>\<^verbatim>\<open>s.strip()\<close> removes leading and trailing whitespace, \<^verbatim>\<open>s.lower()\<close> lower-cases
  the letters \<open>A\<close> to \<open>Z\<close>.\<close>

definition is_space :: "char \<Rightarrow> bool" where
  "is_space c = (c \<in> set [CHR 0x20, CHR 0x09, CHR 0x0A, CHR 0x0B, CHR 0x0C, CHR 0x0D,
                           CHR 0x1C, CHR 0x1D, CHR 0x1E, CHR 0x1F])"

definition strip :: "string \<Rightarrow> string" where
  "strip s = rev (dropWhile is_space (rev (dropWhile is_space s)))"

definition lower_char :: "char \<Rightarrow> char" where
  "lower_char c =
     (case map_of (zip ''ABCDEFGHIJKLMNOPQRSTUVWXYZ'' ''abcdefghijklmnopqrstuvwxyz'') c of
        Some l \<Rightarrow> l
      | None \<Rightarrow> c)"

definition lower :: "string \<Rightarrow> string" where
  "lower s = map lower_char s"

text \<open>The ingredient normalizer \<^verbatim>\<open>ing.strip().lower()\<close>.\<close>

definition ingredient_key :: "string \<Rightarrow> string" where
  "ingredient_key s = lower (strip s)"

subsection \<open>Data model\<close>

text \<open>
  A recipe is a JSON object with the keys \<^verbatim>\<open>id\<close> (the field \<open>rid\<close>) and
  \<^verbatim>\<open>title\<close>, which the engine indexes directly, and with lists that it reads with
  \<^verbatim>\<open>r.get(key, [])\<close>, so that an absent list is the empty list. The engine holds the
  recipes, keyed by identifier in the order of loading, and the substitution table. The
  ingredient tags and the inverted index are filled at load time and read by no
  operation; they are left out.
\<close>

record recipe =
  rid :: string
  title :: string
  ingredients :: "string list"
  instructions :: "string list"
  tags :: "string list"

record engine =
  recipes :: "(string \<times> recipe) list"
  substitutions :: "string \<rightharpoonup> string list"

text \<open>\<^verbatim>\<open>_load\<close>: \<^verbatim>\<open>self.recipes = {r["id"]: r for r in json.loads(...)}\<close>.\<close>

definition load :: "recipe list \<Rightarrow> (string \<rightharpoonup> string list) \<Rightarrow> engine" where
  "load rs subst = \<lparr>recipes = dict_of (map (\<lambda>r. (rid r, r)) rs), substitutions = subst\<rparr>"

record SuggestionRequest =
  available_ingredients :: "string list"
  max_missing :: int
  allow_substitutions :: bool
  max_suggestions :: int
  plan_size :: int
  prioritize_min_missing :: bool

subsection \<open>Catalog accessors\<close>

definition get_all_recipes :: "engine \<Rightarrow> recipe list" where
  "get_all_recipes eng = map snd (recipes eng)"

text \<open>\<^verbatim>\<open>get_all_ingredients\<close> collects every ingredient string as stored and sorts the set.\<close>

definition get_all_ingredients :: "engine \<Rightarrow> string list" where
  "get_all_ingredients eng =
     sorted_list_of_set
       (foldl (\<lambda>acc r. foldl (\<lambda>acc' ing. insert ing acc') acc (ingredients r)) {}
          (map snd (recipes eng)))"

subsection \<open>Coverage resolver\<close>

text \<open>The inner \<^verbatim>\<open>for alt in ...: if alt in available: ... break\<close> with its \<^verbatim>\<open>else\<close>
  branch: the first alternative that is available, if any.\<close>

fun first_available :: "string set \<Rightarrow> string list \<Rightarrow> string option" where
  "first_available available [] = None"
| "first_available available (alt # alts) =
     (if alt \<in> available then Some alt else first_available available alts)"

type_synonym coverage = "string set \<times> string set \<times> (string \<times> string) list"

text \<open>One iteration of the loop over the recipe's ingredients; the state is
  \<open>(missing, covered, subs_used)\<close>.\<close>

definition coverage_step :: "engine \<Rightarrow> string set \<Rightarrow> bool \<Rightarrow> coverage \<Rightarrow> string \<Rightarrow> coverage" where
  "coverage_step eng available allow_subs st ing =
     (case st of (missing, covered, subs_used) \<Rightarrow>
        let ing_key = ingredient_key ing in
        if ing_key \<in> available then (missing, insert ing_key covered, subs_used)
        else if allow_subs then
          (case first_available available (dict_get (substitutions eng) ing_key []) of
             Some alt \<Rightarrow> (missing, insert ing_key covered, AList.update ing_key alt subs_used)
           | None \<Rightarrow> (insert ing_key missing, covered, subs_used))
        else (insert ing_key missing, covered, subs_used))"

definition compute_missing_and_subs :: "engine \<Rightarrow> recipe \<Rightarrow> string set \<Rightarrow> bool \<Rightarrow> coverage" where
  "compute_missing_and_subs eng recipe available allow_subs =
     foldl (coverage_step eng available allow_subs) ({}, {}, []) (ingredients recipe)"

subsection \<open>Scorer\<close>

text \<open>\<^verbatim>\<open>_score_recipe\<close> counts \<^verbatim>\<open>len(set(covered))\<close>, \<^verbatim>\<open>len(set(missing))\<close> and
  \<^verbatim>\<open>len(subs_used)\<close>; \<^verbatim>\<open>_score_plan\<close> counts the lengths of the aggregated sets.\<close>

definition score_recipe :: "string set \<Rightarrow> string set \<Rightarrow> (string \<times> string) list \<Rightarrow> rat" where
  "score_recipe covered missing subs_used =
     (let covered_count = card covered;
          missing_count = card missing;
          subs_penalty = (1 / 5) * of_nat (length subs_used)
      in of_nat covered_count - (of_nat missing_count + subs_penalty))"

definition score_plan :: "string set \<Rightarrow> string set \<Rightarrow> (string \<times> string) list \<Rightarrow> rat" where
  "score_plan covered missing subs_used =
     of_nat (card covered) - ((3 / 2) * of_nat (card missing)) - ((1 / 5) * of_nat (length subs_used))"

subsection \<open>Plan search\<close>

text \<open>The per-recipe detail dictionary \<^verbatim>\<open>{"missing": ..., "covered": ..., "subs": ...}\<close>
  and the shortlist entry \<^verbatim>\<open>(recipe_id, score, details)\<close>.\<close>

record details =
  missing :: "string list"
  covered :: "string list"
  subs :: "(string \<times> string) list"

type_synonym candidate = "string \<times> rat \<times> details"

text \<open>Stage 1: one pass over \<^verbatim>\<open>self.recipes.items()\<close> keeps the recipes within the
  missing budget.\<close>

definition greedy_entry :: "engine \<Rightarrow> SuggestionRequest \<Rightarrow> string set \<Rightarrow> string \<times> recipe \<Rightarrow> candidate list" where
  "greedy_entry eng req available item =
     (case item of (recipe_id, recipe) \<Rightarrow>
        (case compute_missing_and_subs eng recipe available (allow_substitutions req) of
           (m, c, s) \<Rightarrow>
             if int (card m) \<le> max_missing req
             then [(recipe_id, score_recipe c m s,
                    \<lparr>missing = sorted_list_of_set m, covered = sorted_list_of_set c, subs = s\<rparr>)]
             else []))"

definition greedy_scores :: "engine \<Rightarrow> SuggestionRequest \<Rightarrow> candidate list" where
  "greedy_scores eng req =
     (let available = ingredient_key ` set (available_ingredients req)
      in concat (map (greedy_entry eng req available) (recipes eng)))"

text \<open>\<^verbatim>\<open>len(self.recipes[rid].get("ingredients", []))\<close>; the lookup raises for an
  identifier outside the catalog, which \<open>sort_scores\<close> checks before it sorts.\<close>

definition ingredient_count :: "engine \<Rightarrow> string \<Rightarrow> nat" where
  "ingredient_count eng recipe_id =
     (case map_of (recipes eng) recipe_id of Some r \<Rightarrow> length (ingredients r) | None \<Rightarrow> 0)"

text \<open>\<^verbatim>\<open>greedy_scores.sort(key=...)\<close>: a stable sort on the key
  \<^verbatim>\<open>(len(ingredients), -score)\<close> or \<^verbatim>\<open>-score\<close>.\<close>

definition sort_scores :: "engine \<Rightarrow> SuggestionRequest \<Rightarrow> candidate list \<Rightarrow> py_error + candidate list" where
  "sort_scores eng req gs =
     (if prioritize_min_missing req
      then (if \<forall>x \<in> set gs. map_of (recipes eng) (fst x) \<noteq> None
            then Inr (sort_key (\<lambda>x. (ingredient_count eng (fst x), - fst (snd x))) gs)
            else Inl KeyError)
      else Inr (sort_key (\<lambda>x. - fst (snd x)) gs))"

definition top_candidates :: "engine \<Rightarrow> SuggestionRequest \<Rightarrow> py_error + candidate list" where
  "top_candidates eng req =
     (case sort_scores eng req (greedy_scores eng req) of
        Inl e \<Rightarrow> Inl e
      | Inr sorted_scores \<Rightarrow> Inr (slice_to (max 25 (max_suggestions req * 3)) sorted_scores))"

text \<open>The aggregation loop at the head of \<^verbatim>\<open>backtrack\<close>.\<close>

definition plan_missing :: "candidate list \<Rightarrow> string set" where
  "plan_missing chosen = foldl (\<lambda>acc c. acc \<union> set (missing (snd (snd c)))) {} chosen"

definition plan_covered :: "candidate list \<Rightarrow> string set" where
  "plan_covered chosen = foldl (\<lambda>acc c. acc \<union> set (covered (snd (snd c)))) {} chosen"

definition plan_subs :: "candidate list \<Rightarrow> (string \<times> string) list" where
  "plan_subs chosen =
     foldl (\<lambda>acc c. foldl (\<lambda>d (k, v). AList.update k v d) acc (subs (snd (snd c)))) [] chosen"

text \<open>The three \<^verbatim>\<open>nonlocal\<close> variables of the search; \<open>None\<close> is the initial score
  \<^verbatim>\<open>-math.inf\<close>.\<close>

record search_state =
  best_plan :: "string list"
  best_plan_score :: "rat option"
  best_plan_details :: "(string \<times> details) list"

definition beats :: "rat \<Rightarrow> rat option \<Rightarrow> bool" where
  "beats score best = (case best of None \<Rightarrow> True | Some b \<Rightarrow> score > b)"

definition details_of :: "candidate list \<Rightarrow> (string \<times> details) list" where
  "details_of chosen = dict_of (map (\<lambda>c. (fst c, snd (snd c))) chosen)"

text \<open>``Evaluate current plan'': the hard constraint on the aggregated missing set and the
  strict comparison with the best score so far.\<close>

definition evaluate_plan :: "SuggestionRequest \<Rightarrow> candidate list \<Rightarrow> search_state \<Rightarrow> search_state" where
  "evaluate_plan req chosen st =
     (let plan_ids = map fst chosen;
          pm = plan_missing chosen;
          pc = plan_covered chosen;
          ps = plan_subs chosen
      in if int (card pm) \<le> max_missing req
         then (let score = score_plan pc pm ps
               in if beats score (best_plan_score st)
                  then \<lparr>best_plan = plan_ids, best_plan_score = Some score,
                        best_plan_details = details_of chosen\<rparr>
                  else st)
         else st)"

text \<open>
  \<open>backtrack\<close> is the recursive closure, \<open>backtrack_from\<close> its loop
  \<^verbatim>\<open>for i in range(start_idx, len(top_candidates))\<close> from index \<open>i\<close> on. The
  \<^verbatim>\<open>append\<close> before and \<^verbatim>\<open>pop\<close> after the recursive call pass \<open>chosen @ [c]\<close>
  down and leave \<open>chosen\<close> as it was.
\<close>

function backtrack ::
    "SuggestionRequest \<Rightarrow> candidate list \<Rightarrow> nat \<Rightarrow> candidate list \<Rightarrow> string set \<Rightarrow> search_state \<Rightarrow> search_state"
  and backtrack_from ::
    "SuggestionRequest \<Rightarrow> candidate list \<Rightarrow> nat \<Rightarrow> candidate list \<Rightarrow> string set \<Rightarrow> search_state \<Rightarrow> search_state"
where
  "backtrack req cands start_idx chosen used_ingredients st =
     (if int (length chosen) > plan_size req then st
      else (let st' = evaluate_plan req chosen st
            in if int (length chosen) = plan_size req then st'
               else backtrack_from req cands start_idx chosen used_ingredients st'))"
| "backtrack_from req cands i chosen used_ingredients st =
     (if i < length cands
      then (let c = cands ! i;
                new_missing = set (missing (snd (snd c))) - used_ingredients
            in if int (card new_missing) > max_missing req
               then backtrack_from req cands (i + 1) chosen used_ingredients st
               else backtrack_from req cands (i + 1) chosen used_ingredients
                      (backtrack req cands (i + 1) (chosen @ [c])
                         (used_ingredients \<union> set (covered (snd (snd c)))) st))
      else st)"
  by pat_completeness auto
termination
  by (relation "measure (\<lambda>x. case x of
          Inl (req, cands, start_idx, chosen, used, st) \<Rightarrow> 2 * (length cands - start_idx) + 1
        | Inr (req, cands, i, chosen, used, st) \<Rightarrow> 2 * (length cands - i))") auto

declare backtrack.simps [simp del] backtrack_from.simps [simp del]

definition initial_state :: search_state where
  "initial_state = \<lparr>best_plan = [], best_plan_score = None, best_plan_details = []\<rparr>"

text \<open>Stage 3: the plan and its details after the fallback to the first entries of the shortlist.\<close>

definition select_plan :: "SuggestionRequest \<Rightarrow> candidate list \<Rightarrow> search_state \<Rightarrow> string list \<times> (string \<times> details) list" where
  "select_plan req cands st =
     (if best_plan st = []
      then (map fst (slice_to (max_suggestions req) cands),
            details_of (slice_to (max_suggestions req) cands))
      else (best_plan st, best_plan_details st))"

record suggestion =
  s_id :: string
  s_title :: string
  s_ingredients :: "string list"
  s_instructions :: "string list"
  s_tags :: "string list"
  s_missing :: "string list"
  s_covered :: "string list"
  s_substitutions :: "(string \<times> string) list"

definition make_suggestion :: "engine \<Rightarrow> (string \<times> details) list \<Rightarrow> string \<Rightarrow> py_error + suggestion" where
  "make_suggestion eng plan_details recipe_id =
     (case map_of (recipes eng) recipe_id of
        None \<Rightarrow> Inl KeyError
      | Some r \<Rightarrow>
          (let det = dict_get (map_of plan_details) recipe_id \<lparr>missing = [], covered = [], subs = []\<rparr>
           in Inr \<lparr>s_id = recipe_id, s_title = title r, s_ingredients = ingredients r,
                   s_instructions = instructions r, s_tags = tags r,
                   s_missing = missing det, s_covered = covered det,
                   s_substitutions = subs det\<rparr>))"

fun build_suggestions :: "engine \<Rightarrow> (string \<times> details) list \<Rightarrow> string list \<Rightarrow> py_error + suggestion list" where
  "build_suggestions eng plan_details [] = Inr []"
| "build_suggestions eng plan_details (recipe_id # rest) =
     (case make_suggestion eng plan_details recipe_id of
        Inl e \<Rightarrow> Inl e
      | Inr s \<Rightarrow>
          (case build_suggestions eng plan_details rest of
             Inl e \<Rightarrow> Inl e
           | Inr ss \<Rightarrow> Inr (s # ss)))"

record response =
  suggestions :: "suggestion list"
  r_plan_size :: int
  r_max_missing :: int

definition suggest_recipes :: "engine \<Rightarrow> SuggestionRequest \<Rightarrow> py_error + response" where
  "suggest_recipes eng req =
     (case top_candidates eng req of
        Inl e \<Rightarrow> Inl e
      | Inr cands \<Rightarrow>
          (let st = backtrack req cands 0 [] {} initial_state in
           case select_plan req cands st of
             (plan, plan_details) \<Rightarrow>
               (case build_suggestions eng plan_details (slice_to (max_suggestions req) plan) of
                  Inl e \<Rightarrow> Inl e
                | Inr ss \<Rightarrow>
                    Inr \<lparr>suggestions = ss, r_plan_size = plan_size req,
                         r_max_missing = max_missing req\<rparr>)))"

subsection \<open>Gap analyzer\<close>

record gap =
  g_title :: string
  g_missing :: "string list"
  g_covered :: "string list"
  substitution_candidates :: "string \<rightharpoonup> string list"

text \<open>One iteration of \<^verbatim>\<open>for rid in recipe_ids\<close>. The test \<^verbatim>\<open>if not r: continue\<close>
  skips an identifier that \<^verbatim>\<open>self.recipes.get\<close> does not find. The dictionary
  \<^verbatim>\<open>suggestions\<close> is filled while iterating over the set \<^verbatim>\<open>missing\<close>, so it is a map
  with that set as its domain.\<close>

definition gap_step :: "engine \<Rightarrow> string set \<Rightarrow> (string \<times> gap) list \<Rightarrow> string \<Rightarrow> (string \<times> gap) list" where
  "gap_step eng available_set gaps recipe_id =
     (case map_of (recipes eng) recipe_id of
        None \<Rightarrow> gaps
      | Some r \<Rightarrow>
          (case compute_missing_and_subs eng r available_set True of
             (m, c, s) \<Rightarrow>
               AList.update recipe_id
                 \<lparr>g_title = title r, g_missing = sorted_list_of_set m,
                  g_covered = sorted_list_of_set c,
                  substitution_candidates =
                    (\<lambda>k. if k \<in> m then Some (dict_get (substitutions eng) k []) else None)\<rparr>
                 gaps))"

definition analyze_gaps :: "engine \<Rightarrow> string list \<Rightarrow> string list \<Rightarrow> (string \<times> gap) list" where
  "analyze_gaps eng recipe_ids available =
     foldl (gap_step eng (ingredient_key ` set available)) [] recipe_ids"

subsection \<open>Auxiliary notions for the statements\<close>

text \<open>What the resolver decides for one normalized ingredient name: the substitute it
  records, and whether the name ends up covered.\<close>

definition substitute_for :: "engine \<Rightarrow> string set \<Rightarrow> bool \<Rightarrow> string \<Rightarrow> string option" where
  "substitute_for eng available allow_subs k =
     (if k \<notin> available \<and> allow_subs
      then find (\<lambda>alt. alt \<in> available) (dict_get (substitutions eng) k [])
      else None)"

definition is_covered :: "engine \<Rightarrow> string set \<Rightarrow> bool \<Rightarrow> string \<Rightarrow> bool" where
  "is_covered eng available allow_subs k =
     (k \<in> available \<or> substitute_for eng available allow_subs k \<noteq> None)"

text \<open>The request's availability set, the stage-1 test of one catalog entry and the
  shortlist entry built from it.\<close>

definition available_set :: "SuggestionRequest \<Rightarrow> string set" where
  "available_set req = ingredient_key ` set (available_ingredients req)"

definition within_budget :: "engine \<Rightarrow> SuggestionRequest \<Rightarrow> string \<times> recipe \<Rightarrow> bool" where
  "within_budget eng req item =
     (int (card (fst (compute_missing_and_subs eng (snd item) (available_set req)
                        (allow_substitutions req)))) \<le> max_missing req)"

definition candidate_of :: "engine \<Rightarrow> SuggestionRequest \<Rightarrow> string \<times> recipe \<Rightarrow> candidate" where
  "candidate_of eng req item =
     (case compute_missing_and_subs eng (snd item) (available_set req) (allow_substitutions req) of
        (m, c, s) \<Rightarrow>
          (fst item, score_recipe c m s,
           \<lparr>missing = sorted_list_of_set m, covered = sorted_list_of_set c, subs = s\<rparr>))"

text \<open>The list \<^verbatim>\<open>greedy_scores\<close> after its in-place sort.\<close>

definition ranked :: "engine \<Rightarrow> SuggestionRequest \<Rightarrow> candidate list" where
  "ranked eng req =
     (if prioritize_min_missing req
      then sort_key (\<lambda>x. (ingredient_count eng (fst x), - fst (snd x))) (greedy_scores eng req)
      else sort_key (\<lambda>x. - fst (snd x)) (greedy_scores eng req))"

text \<open>The score of a plan, as \<open>evaluate_plan\<close> computes it from the aggregated sets.\<close>

definition plan_score :: "candidate list \<Rightarrow> rat" where
  "plan_score chosen = score_plan (plan_covered chosen) (plan_missing chosen) (plan_subs chosen)"

text \<open>What the search has recorded: nothing, or a plan made of shortlist entries whose
  aggregated missing set is within the budget.\<close>

definition recorded :: "SuggestionRequest \<Rightarrow> candidate list \<Rightarrow> search_state \<Rightarrow> bool" where
  "recorded req cands st =
     (best_plan st = [] \<or>
      (\<exists>chosen. set chosen \<subseteq> set cands \<and> best_plan st = map fst chosen \<and>
         best_plan_details st = details_of chosen \<and>
         int (card (plan_missing chosen)) \<le> max_missing req))"



text \<open>The catalog and the request of the worked example: pancakes need eggs, flour and
  milk, meringue needs eggs and sugar, and water may stand in for milk.\<close>

definition pancakes :: recipe where
  "pancakes = \<lparr>rid = ''R1'', title = ''Pancakes'', ingredients = [''Eggs'', ''flour'', '' milk''],
                instructions = [''mix'', ''fry''], tags = [''breakfast'']\<rparr>"

definition meringue :: recipe where
  "meringue = \<lparr>rid = ''R2'', title = ''Meringue'', ingredients = [''eggs'', ''sugar''],
                instructions = [''whip'', ''bake''], tags = []\<rparr>"

definition example_engine :: engine where
  "example_engine = load [pancakes, meringue] [''milk'' \<mapsto> [''cream'', ''water'', ''eggs'']]"

definition example_request :: SuggestionRequest where
  "example_request =
     \<lparr>available_ingredients = [''eggs'', ''Flour '', ''water''], max_missing = 1,
      allow_substitutions = True, max_suggestions = 8, plan_size = 1,
      prioritize_min_missing = True\<rparr>"


section \<open>Properties\<close>

subsection \<open>Coverage resolver\<close>

lemma first_available_find:
  "first_available available alts = find (\<lambda>alt. alt \<in> available) alts"
  by (induction alts) simp_all

lemma coverage_step_eq:
  "coverage_step eng av al (m, c, s) ing =
     (let k = ingredient_key ing in
      if is_covered eng av al k
      then (m, insert k c,
            case substitute_for eng av al k of None \<Rightarrow> s | Some a \<Rightarrow> AList.update k a s)
      else (insert k m, c, s))"
  by (auto simp: coverage_step_def is_covered_def substitute_for_def first_available_find
        Let_def split: option.splits)

lemma cov_missing:
  "fst (foldl (coverage_step eng av al) st ings) =
     fst st \<union> {k \<in> ingredient_key ` set ings. \<not> is_covered eng av al k}"
proof (induction ings arbitrary: st)
  case Nil
  show ?case by simp
next
  case (Cons ing ings)
  show ?case by (cases st) (auto simp: Cons.IH coverage_step_eq Let_def)
qed

lemma cov_covered:
  "fst (snd (foldl (coverage_step eng av al) st ings)) =
     fst (snd st) \<union> {k \<in> ingredient_key ` set ings. is_covered eng av al k}"
proof (induction ings arbitrary: st)
  case Nil
  show ?case by simp
next
  case (Cons ing ings)
  show ?case by (cases st) (auto simp: Cons.IH coverage_step_eq Let_def)
qed



lemma cov_subs_lookup:
  "map_of (snd (snd (foldl (coverage_step eng av al) st ings))) k =
     (if k \<in> ingredient_key ` set ings \<and> substitute_for eng av al k \<noteq> None
      then substitute_for eng av al k else map_of (snd (snd st)) k)"
proof (induction ings arbitrary: st)
  case Nil
  show ?case by simp
next
  case (Cons ing ings)
  show ?case
    by (cases st)
      (auto simp: Cons.IH coverage_step_eq Let_def AList.update_conv' is_covered_def
         split: option.splits)
qed

lemma missing_set:
  "fst (compute_missing_and_subs eng r av al) =
     {k \<in> ingredient_key ` set (ingredients r). \<not> is_covered eng av al k}"
  by (simp add: compute_missing_and_subs_def cov_missing)

lemma covered_set:
  "fst (snd (compute_missing_and_subs eng r av al)) =
     {k \<in> ingredient_key ` set (ingredients r). is_covered eng av al k}"
  by (simp add: compute_missing_and_subs_def cov_covered)



lemma subs_lookup:
  "map_of (snd (snd (compute_missing_and_subs eng r av al))) k =
     (if k \<in> ingredient_key ` set (ingredients r) then substitute_for eng av al k else None)"
  by (simp add: compute_missing_and_subs_def cov_subs_lookup)

lemma finite_missing: "finite (fst (compute_missing_and_subs eng r av al))"
  by (simp add: missing_set)

lemma finite_covered: "finite (fst (snd (compute_missing_and_subs eng r av al)))"
  by (simp add: covered_set)


text \<open>
  Claim C4. For a required ingredient with normalized name \<open>k\<close>: if \<open>k\<close> is available it
  is covered and no substitution is recorded for it, whatever the table offers;
  otherwise, with substitutions allowed, the first alternative of the table's list for
  \<open>k\<close> that is available is recorded and \<open>k\<close> is covered; and if there is no such
  alternative, or substitutions are not allowed, \<open>k\<close> is missing.
\<close>

theorem coverage_resolution:
  "ing \<in> set (ingredients r) \<Longrightarrow>
   (case compute_missing_and_subs eng r available allow_subs of
      (m, c, s) \<Rightarrow>
        (let k = ingredient_key ing;
             alternative = find (\<lambda>alt. alt \<in> available) (dict_get (substitutions eng) k [])
         in if k \<in> available then k \<in> c \<and> k \<notin> m \<and> map_of s k = None
            else if allow_subs \<and> alternative \<noteq> None
                 then k \<in> c \<and> k \<notin> m \<and> map_of s k = alternative
                 else k \<in> m \<and> k \<notin> c \<and> map_of s k = None))"
proof -
  assume ing: "ing \<in> set (ingredients r)"
  obtain m c s where res: "compute_missing_and_subs eng r available allow_subs = (m, c, s)"
    by (cases "compute_missing_and_subs eng r available allow_subs") auto
  let ?k = "ingredient_key ing"
  have k: "?k \<in> ingredient_key ` set (ingredients r)" using ing by simp
  have m: "?k \<in> m \<longleftrightarrow> \<not> is_covered eng available allow_subs ?k"
    using missing_set [of eng r available allow_subs] res k by auto
  have c: "?k \<in> c \<longleftrightarrow> is_covered eng available allow_subs ?k"
    using covered_set [of eng r available allow_subs] res k by auto
  have s: "map_of s ?k = substitute_for eng available allow_subs ?k"
    using subs_lookup [of eng r available allow_subs ?k] res k by simp
  show ?thesis
    by (auto simp: res m c s Let_def is_covered_def substitute_for_def)
qed

theorem coverage_resolution_witness:
  "'' milk'' \<in> set (ingredients pancakes) \<and>
   (case compute_missing_and_subs example_engine pancakes {''eggs'', ''flour'', ''water''} True of
      (m, c, s) \<Rightarrow> ''milk'' \<in> c \<and> ''milk'' \<notin> m \<and> map_of s ''milk'' = Some ''water'') \<and>
   ''Eggs'' \<in> set (ingredients pancakes) \<and>
   (case compute_missing_and_subs example_engine pancakes {''eggs'', ''flour'', ''water''} True of
      (m, c, s) \<Rightarrow> ''eggs'' \<in> c \<and> ''eggs'' \<notin> m \<and> map_of s ''eggs'' = None) \<and>
   (case compute_missing_and_subs example_engine pancakes {''eggs'', ''flour'', ''water''} False of
      (m, c, s) \<Rightarrow> ''milk'' \<in> m \<and> ''milk'' \<notin> c \<and> map_of s ''milk'' = None)"
proof -
  have milk: "'' milk'' \<in> set (ingredients pancakes)" and eggs: "''Eggs'' \<in> set (ingredients pancakes)"
    by (simp_all add: pancakes_def)
  have keys: "ingredient_key '' milk'' = ''milk''" "ingredient_key ''Eggs'' = ''eggs''"
    by (simp_all add: ingredient_key_def strip_def lower_def lower_char_def is_space_def)
  have table: "dict_get (substitutions example_engine) ''milk'' [] = [''cream'', ''water'', ''eggs'']"
    by (simp add: example_engine_def load_def dict_get_def)
  show ?thesis
    using milk eggs
      coverage_resolution [OF milk, where eng = example_engine
        and available = "{''eggs'', ''flour'', ''water''}" and allow_subs = True]
      coverage_resolution [OF eggs, where eng = example_engine
        and available = "{''eggs'', ''flour'', ''water''}" and allow_subs = True]
      coverage_resolution [OF milk, where eng = example_engine
        and available = "{''eggs'', ''flour'', ''water''}" and allow_subs = False]
    by (simp add: keys table Let_def split: prod.splits)
qed

text \<open>
  Claim C5. With the availability set fixed, turning substitutions off never shrinks the
  missing set and never grows the covered set: the sets are included in one another,
  and so are their sizes.
\<close>

theorem substitutions_monotone:
  "fst (compute_missing_and_subs eng r available True)
     \<subseteq> fst (compute_missing_and_subs eng r available False) \<and>
   fst (snd (compute_missing_and_subs eng r available False))
     \<subseteq> fst (snd (compute_missing_and_subs eng r available True)) \<and>
   card (fst (compute_missing_and_subs eng r available True))
     \<le> card (fst (compute_missing_and_subs eng r available False)) \<and>
   card (fst (snd (compute_missing_and_subs eng r available False)))
     \<le> card (fst (snd (compute_missing_and_subs eng r available True)))"
proof -
  have cov: "is_covered eng available False k \<Longrightarrow> is_covered eng available True k" for k
    by (simp add: is_covered_def substitute_for_def)
  have m: "fst (compute_missing_and_subs eng r available True)
      \<subseteq> fst (compute_missing_and_subs eng r available False)"
    unfolding missing_set using cov by blast
  have c: "fst (snd (compute_missing_and_subs eng r available False))
      \<subseteq> fst (snd (compute_missing_and_subs eng r available True))"
    unfolding covered_set using cov by blast
  from m have "card (fst (compute_missing_and_subs eng r available True))
      \<le> card (fst (compute_missing_and_subs eng r available False))"
    by (rule card_mono [OF finite_missing])
  moreover from c have "card (fst (snd (compute_missing_and_subs eng r available False)))
      \<le> card (fst (snd (compute_missing_and_subs eng r available True)))"
    by (rule card_mono [OF finite_covered])
  ultimately show ?thesis using m c by simp
qed

subsection \<open>Dictionaries as association lists\<close>

lemma update_all_keys:
  "fst ` set (foldl (\<lambda>d (k, v). AList.update k v d) acc kvs) = fst ` set acc \<union> fst ` set kvs"
proof (induction kvs arbitrary: acc)
  case Nil
  show ?case by simp
next
  case (Cons kv kvs)
  show ?case by (cases kv) (simp add: Cons.IH AList.dom_update)
qed

lemma update_all_distinct:
  "distinct (map fst acc) \<Longrightarrow>
   distinct (map fst (foldl (\<lambda>d (k, v). AList.update k v d) acc kvs))"
proof (induction kvs arbitrary: acc)
  case Nil
  then show ?case by simp
next
  case (Cons kv kvs)
  then show ?case by (cases kv) (simp add: AList.distinct_update)
qed

lemma update_all_lookup:
  "map_of (foldl (\<lambda>d (k, v). AList.update k v d) acc kvs) = map_of acc ++ map_of (rev kvs)"
proof (induction kvs arbitrary: acc)
  case Nil
  show ?case by simp
next
  case (Cons kv kvs)
  obtain k v where kv: "kv = (k, v)" by (cases kv)
  have step: "map_of (AList.update k v acc) ++ map_of (rev kvs) = map_of acc ++ map_of (rev (kv # kvs))"
    by (rule ext) (simp add: kv AList.update_conv' map_of_append map_add_def split: option.splits)
  have "foldl (\<lambda>d (k, v). AList.update k v d) acc (kv # kvs) =
      foldl (\<lambda>d (k, v). AList.update k v d) (AList.update k v acc) kvs"
    by (simp add: kv)
  then show ?case using Cons.IH [of "AList.update k v acc"] step by simp
qed

lemma dict_of_keys: "fst ` set (dict_of kvs) = fst ` set kvs"
  by (simp add: dict_of_def update_all_keys)

lemma dict_of_distinct: "distinct (map fst (dict_of kvs))"
  by (simp add: dict_of_def update_all_distinct)

lemma dict_of_lookup: "map_of (dict_of kvs) = map_of (rev kvs)"
  by (simp add: dict_of_def update_all_lookup)

lemma dict_of_SomeD: "map_of (dict_of kvs) k = Some v \<Longrightarrow> (k, v) \<in> set kvs"
  by (auto simp: dict_of_lookup dest: map_of_SomeD)


subsection \<open>Scorer\<close>






subsection \<open>Catalog accessors\<close>

lemma get_all_ingredients_eq:
  "get_all_ingredients eng =
     sorted_list_of_set (\<Union>r \<in> snd ` set (recipes eng). set (ingredients r))"
proof -
  have inner: "foldl (\<lambda>acc' ing. insert ing acc') A ings = A \<union> set ings" for A and ings :: "string list"
    by (induction ings arbitrary: A) auto
  have "foldl (\<lambda>acc r. foldl (\<lambda>acc' ing. insert ing acc') acc (ingredients r)) A rs =
      A \<union> (\<Union>r \<in> set rs. set (ingredients r))" for A and rs :: "recipe list"
    by (induction rs arbitrary: A) (auto simp: inner)
  then show ?thesis by (simp add: get_all_ingredients_def)
qed

text \<open>
  Claim C6. \<^verbatim>\<open>get_all_ingredients\<close> returns the stored strings, sorted by code point
  and deduplicated as strings. It does not trim or lower-case them: a recipe that lists
  \<^verbatim>\<open>"eggs "\<close>, \<^verbatim>\<open>"Eggs"\<close> and \<^verbatim>\<open>"eggs"\<close> yields three entries where the
  normalized listing has the single entry \<^verbatim>\<open>"eggs"\<close>.
\<close>

theorem get_all_ingredients_keeps_raw_names:
  "get_all_ingredients
     (load [\<lparr>rid = ''R1'', title = ''Omelette'', ingredients = [''eggs '', ''Eggs'', ''eggs''],
             instructions = [], tags = []\<rparr>] Map.empty)
   = [''Eggs'', ''eggs'', ''eggs '']"
  by code_simp

subsection \<open>Gap analyzer\<close>

lemma gap_fold_keys:
  "fst ` set (foldl (gap_step eng av) gaps ids) =
     fst ` set gaps \<union> (set ids \<inter> fst ` set (recipes eng))"
proof (induction ids arbitrary: gaps)
  case Nil
  show ?case by simp
next
  case (Cons recipe_id ids)
  have "fst ` set (gap_step eng av gaps recipe_id) =
      fst ` set gaps \<union> ({recipe_id} \<inter> fst ` set (recipes eng))"
  proof (cases "map_of (recipes eng) recipe_id")
    case None
    then have "recipe_id \<notin> fst ` set (recipes eng)"
      by (simp add: map_of_eq_None_iff)
    with None show ?thesis by (simp add: gap_step_def)
  next
    case (Some r)
    then have "recipe_id \<in> fst ` set (recipes eng)"
      by (metis map_of_eq_None_iff option.distinct(1))
    with Some show ?thesis
      by (cases "compute_missing_and_subs eng r av True")
        (simp add: gap_step_def AList.dom_update)
  qed
  then show ?case by (auto simp: Cons.IH)
qed

lemma gap_fold_distinct:
  "distinct (map fst gaps) \<Longrightarrow> distinct (map fst (foldl (gap_step eng av) gaps ids))"
proof (induction ids arbitrary: gaps)
  case Nil
  then show ?case by simp
next
  case (Cons recipe_id ids)
  have "distinct (map fst (gap_step eng av gaps recipe_id))"
    using Cons.prems
    by (auto simp: gap_step_def AList.distinct_update split: option.splits prod.splits)
  then show ?case using Cons.IH by simp
qed

lemma gap_fold_lookup:
  "map_of (recipes eng) recipe_id = Some r \<Longrightarrow>
   compute_missing_and_subs eng r av True = (m, c, s) \<Longrightarrow>
   recipe_id \<in> set ids \<or> map_of gaps recipe_id =
     Some \<lparr>g_title = title r, g_missing = sorted_list_of_set m,
           g_covered = sorted_list_of_set c,
           substitution_candidates =
             (\<lambda>k. if k \<in> m then Some (dict_get (substitutions eng) k []) else None)\<rparr> \<Longrightarrow>
   map_of (foldl (gap_step eng av) gaps ids) recipe_id =
     Some \<lparr>g_title = title r, g_missing = sorted_list_of_set m,
           g_covered = sorted_list_of_set c,
           substitution_candidates =
             (\<lambda>k. if k \<in> m then Some (dict_get (substitutions eng) k []) else None)\<rparr>"
proof (induction ids arbitrary: gaps)
  case Nil
  then show ?case by simp
next
  case (Cons x ids)
  let ?g = "\<lparr>g_title = title r, g_missing = sorted_list_of_set m,
           g_covered = sorted_list_of_set c,
           substitution_candidates =
             (\<lambda>k. if k \<in> m then Some (dict_get (substitutions eng) k []) else None)\<rparr>"
  have "recipe_id \<in> set ids \<or> map_of (gap_step eng av gaps x) recipe_id = Some ?g"
  proof (cases "x = recipe_id")
    case True
    then show ?thesis
      using Cons.prems(1,2) by (simp add: gap_step_def AList.update_conv')
  next
    case False
    then have "map_of (gap_step eng av gaps x) recipe_id = map_of gaps recipe_id"
      by (auto simp: gap_step_def AList.update_conv' split: option.splits prod.splits)
    then show ?thesis using Cons.prems(3) False by auto
  qed
  then show ?case using Cons.IH [OF Cons.prems(1,2)] by simp
qed

text \<open>
  Claim C8. \<^verbatim>\<open>analyze_gaps\<close> has exactly one entry for every requested identifier that
  the catalog knows and none for the others. The entry of a known identifier is computed
  with substitutions allowed: it carries the recipe's title, the missing and the covered
  names as sorted lists without repetition, and for each missing name the whole
  alternative list of the substitution table, or the empty list if the table has no
  entry for it.
\<close>

theorem analyze_gaps_entries:
  "distinct (map fst (analyze_gaps eng recipe_ids available)) \<and>
   fst ` set (analyze_gaps eng recipe_ids available) = set recipe_ids \<inter> fst ` set (recipes eng) \<and>
   (\<forall>recipe_id r m c s.
      recipe_id \<in> set recipe_ids \<and> map_of (recipes eng) recipe_id = Some r \<and>
      compute_missing_and_subs eng r (ingredient_key ` set available) True = (m, c, s) \<longrightarrow>
      (\<exists>g. map_of (analyze_gaps eng recipe_ids available) recipe_id = Some g \<and>
           g_title g = title r \<and>
           sorted (g_missing g) \<and> distinct (g_missing g) \<and> set (g_missing g) = m \<and>
           sorted (g_covered g) \<and> distinct (g_covered g) \<and> set (g_covered g) = c \<and>
           dom (substitution_candidates g) = m \<and>
           (\<forall>k \<in> m. substitution_candidates g k =
              Some (case substitutions eng k of None \<Rightarrow> [] | Some alts \<Rightarrow> alts))))"
proof (intro conjI allI impI)
  show "distinct (map fst (analyze_gaps eng recipe_ids available))"
    by (simp add: analyze_gaps_def gap_fold_distinct)
  show "fst ` set (analyze_gaps eng recipe_ids available) = set recipe_ids \<inter> fst ` set (recipes eng)"
    by (simp add: analyze_gaps_def gap_fold_keys)
next
  fix recipe_id r m c s
  assume a: "recipe_id \<in> set recipe_ids \<and> map_of (recipes eng) recipe_id = Some r \<and>
      compute_missing_and_subs eng r (ingredient_key ` set available) True = (m, c, s)"
  let ?g = "\<lparr>g_title = title r, g_missing = sorted_list_of_set m,
           g_covered = sorted_list_of_set c,
           substitution_candidates =
             (\<lambda>k. if k \<in> m then Some (dict_get (substitutions eng) k []) else None)\<rparr>"
  have fin: "finite m" "finite c"
    using a finite_missing [of eng r "ingredient_key ` set available" True]
      finite_covered [of eng r "ingredient_key ` set available" True] by simp_all
  have "map_of (analyze_gaps eng recipe_ids available) recipe_id = Some ?g"
    unfolding analyze_gaps_def using a by (intro gap_fold_lookup) simp_all
  moreover have "dom (substitution_candidates ?g) = m"
    by (auto simp: dom_def)
  moreover have "\<forall>k \<in> m. substitution_candidates ?g k =
      Some (case substitutions eng k of None \<Rightarrow> [] | Some alts \<Rightarrow> alts)"
    by (simp add: dict_get_def)
  ultimately show "\<exists>g. map_of (analyze_gaps eng recipe_ids available) recipe_id = Some g \<and>
           g_title g = title r \<and>
           sorted (g_missing g) \<and> distinct (g_missing g) \<and> set (g_missing g) = m \<and>
           sorted (g_covered g) \<and> distinct (g_covered g) \<and> set (g_covered g) = c \<and>
           dom (substitution_candidates g) = m \<and>
           (\<forall>k \<in> m. substitution_candidates g k =
              Some (case substitutions eng k of None \<Rightarrow> [] | Some alts \<Rightarrow> alts))"
    using fin by (intro exI [of _ ?g]) simp
qed


theorem analyze_gaps_entries_witness:
  "''R2'' \<in> set [''R2'', ''R9'', ''R2''] \<and>
   map_of (recipes example_engine) ''R2'' = Some meringue \<and>
   compute_missing_and_subs example_engine meringue (ingredient_key ` set [''eggs'']) True
     = ({''sugar''}, {''eggs''}, []) \<and>
   fst ` set (analyze_gaps example_engine [''R2'', ''R9'', ''R2''] [''eggs'']) = {''R2''} \<and>
   (\<exists>g. map_of (analyze_gaps example_engine [''R2'', ''R9'', ''R2''] [''eggs'']) ''R2'' = Some g \<and>
        g_title g = ''Meringue'' \<and> set (g_missing g) = {''sugar''} \<and>
        set (g_covered g) = {''eggs''} \<and> substitution_candidates g ''sugar'' = Some [])"
proof -
  note spec = analyze_gaps_entries [of example_engine "[''R2'', ''R9'', ''R2'']" "[''eggs'']"]
  have cat: "recipes example_engine = [(''R1'', pancakes), (''R2'', meringue)]"
    by (simp add: example_engine_def load_def dict_of_def pancakes_def meringue_def)
  have h1: "''R2'' \<in> set [''R2'', ''R9'', ''R2'']" by simp
  have h2: "map_of (recipes example_engine) ''R2'' = Some meringue" by (simp add: cat)
  have h3: "compute_missing_and_subs example_engine meringue (ingredient_key ` set [''eggs'']) True
     = ({''sugar''}, {''eggs''}, [])"
    by code_simp
  have table: "substitutions example_engine ''sugar'' = None"
    by (simp add: example_engine_def load_def)
  from spec have "fst ` set (analyze_gaps example_engine [''R2'', ''R9'', ''R2''] [''eggs''])
      = set [''R2'', ''R9'', ''R2''] \<inter> fst ` set (recipes example_engine)"
    by blast
  then have keys: "fst ` set (analyze_gaps example_engine [''R2'', ''R9'', ''R2''] [''eggs'']) = {''R2''}"
    by (simp add: cat)
  note entry = spec [THEN conjunct2, THEN conjunct2, rule_format, OF conjI [OF h1 conjI [OF h2 h3]]]
  then obtain g where
    g: "map_of (analyze_gaps example_engine [''R2'', ''R9'', ''R2''] [''eggs'']) ''R2'' = Some g"
       "g_title g = title meringue" "set (g_missing g) = {''sugar''}" "set (g_covered g) = {''eggs''}"
       "\<forall>k \<in> {''sugar''}. substitution_candidates g k =
          Some (case substitutions example_engine k of None \<Rightarrow> [] | Some alts \<Rightarrow> alts)"
    by (elim exE conjE)
  from g(5) have cand: "substitution_candidates g ''sugar'' = Some []" by (simp add: table)
  have "g_title g = ''Meringue''" using g(2) by (simp add: meringue_def)
  with g(1,3,4) cand
  have "\<exists>g. map_of (analyze_gaps example_engine [''R2'', ''R9'', ''R2''] [''eggs'']) ''R2'' = Some g \<and>
        g_title g = ''Meringue'' \<and> set (g_missing g) = {''sugar''} \<and>
        set (g_covered g) = {''eggs''} \<and> substitution_candidates g ''sugar'' = Some []"
    by (intro exI [of _ g] conjI)
  with h1 h2 h3 keys show ?thesis by (intro conjI)
qed

subsection \<open>Stage 1: the shortlist\<close>

lemma greedy_scores_eq:
  "greedy_scores eng req = map (candidate_of eng req) (filter (within_budget eng req) (recipes eng))"
proof -
  have "concat (map (greedy_entry eng req (available_set req)) xs) =
      map (candidate_of eng req) (filter (within_budget eng req) xs)" for xs
    by (induction xs)
      (auto simp: greedy_entry_def candidate_of_def within_budget_def split: prod.splits)
  then show ?thesis by (simp add: greedy_scores_def available_set_def)
qed

lemma candidate_of_id: "fst (candidate_of eng req item) = fst item"
  by (simp add: candidate_of_def split: prod.splits)

lemma greedy_scores_ids:
  "map fst (greedy_scores eng req) = map fst (filter (within_budget eng req) (recipes eng))"
  by (simp add: greedy_scores_eq candidate_of_id)

lemma sort_scores_eq:
  "sort_scores eng req (greedy_scores eng req) =
     Inr (if prioritize_min_missing req
          then sort_key (\<lambda>x. (ingredient_count eng (fst x), - fst (snd x))) (greedy_scores eng req)
          else sort_key (\<lambda>x. - fst (snd x)) (greedy_scores eng req))"
proof -
  have "map_of (recipes eng) (fst x) \<noteq> None" if "x \<in> set (greedy_scores eng req)" for x
  proof -
    from that have "fst x \<in> set (map fst (greedy_scores eng req))" by simp
    then have "fst x \<in> fst ` set (recipes eng)" by (auto simp: greedy_scores_ids)
    then show ?thesis by (simp add: map_of_eq_None_iff)
  qed
  then show ?thesis by (simp add: sort_scores_def)
qed

lemma top_candidates_eq:
  "top_candidates eng req = Inr (take (nat (max 25 (max_suggestions req * 3))) (ranked eng req))"
  by (simp add: top_candidates_def sort_scores_eq slice_to_def ranked_def)

lemma set_ranked: "set (ranked eng req) = set (greedy_scores eng req)"
  by (simp add: ranked_def)




subsection \<open>Stage 2: the search keeps to the budget\<close>

lemma slice_to_subset: "set (slice_to n xs) \<subseteq> set xs"
  by (auto simp: slice_to_def dest: in_set_takeD)

lemma candidate_budget:
  assumes "x \<in> set (greedy_scores eng req)"
  shows "int (length (missing (snd (snd x)))) \<le> max_missing req"
proof -
  from assms obtain item where item: "within_budget eng req item" "x = candidate_of eng req item"
    by (auto simp: greedy_scores_eq)
  obtain m c s where res:
    "compute_missing_and_subs eng (snd item) (available_set req) (allow_substitutions req) = (m, c, s)"
    by (cases "compute_missing_and_subs eng (snd item) (available_set req) (allow_substitutions req)") auto
  have "missing (snd (snd x)) = sorted_list_of_set m"
    by (simp add: item(2) candidate_of_def res)
  moreover have "int (card m) \<le> max_missing req"
    using item(1) by (simp add: within_budget_def res)
  ultimately show ?thesis by simp
qed

lemma shortlist_budget:
  assumes "top_candidates eng req = Inr cands" and "x \<in> set cands"
  shows "int (length (missing (snd (snd x)))) \<le> max_missing req"
proof -
  from assms have "x \<in> set (ranked eng req)"
    by (auto simp: top_candidates_eq dest: in_set_takeD)
  then show ?thesis by (simp add: set_ranked candidate_budget)
qed

lemma shortlist_ids:
  assumes "top_candidates eng req = Inr cands" and "x \<in> set cands"
  shows "fst x \<in> fst ` set (recipes eng)"
proof -
  from assms have "x \<in> set (greedy_scores eng req)"
    by (auto simp: top_candidates_eq set_ranked dest: in_set_takeD)
  then have "fst x \<in> set (map fst (greedy_scores eng req))" by simp
  then show ?thesis by (auto simp: greedy_scores_ids)
qed

lemma evaluate_plan_cases:
  "evaluate_plan req chosen st = st \<or>
   (int (card (plan_missing chosen)) \<le> max_missing req \<and>
    beats (plan_score chosen) (best_plan_score st) \<and>
    evaluate_plan req chosen st =
      \<lparr>best_plan = map fst chosen, best_plan_score = Some (plan_score chosen),
       best_plan_details = details_of chosen\<rparr>)"
  by (simp add: evaluate_plan_def plan_score_def Let_def)

lemma evaluate_plan_recorded:
  "recorded req cands st \<Longrightarrow> set chosen \<subseteq> set cands \<Longrightarrow>
   recorded req cands (evaluate_plan req chosen st)"
  using evaluate_plan_cases [of req chosen st] by (auto simp: recorded_def)

lemma backtrack_recorded:
  "recorded req cands st \<Longrightarrow> set chosen \<subseteq> set cands \<Longrightarrow>
     recorded req cands (backtrack req cands start_idx chosen used st)"
  "recorded req cands st \<Longrightarrow> set chosen \<subseteq> set cands \<Longrightarrow>
     recorded req cands (backtrack_from req cands i chosen used st)"
proof (induction req cands start_idx chosen used st and req cands i chosen used st
    rule: backtrack_backtrack_from.induct)
  case (1 req cands start_idx chosen used st)
  have ev: "recorded req cands (evaluate_plan req chosen st)"
    using "1.prems" by (rule evaluate_plan_recorded)
  show ?case
  proof (cases "int (length chosen) > plan_size req")
    case True
    then show ?thesis using "1.prems" by (simp add: backtrack.simps [of req cands start_idx chosen])
  next
    case False
    show ?thesis
    proof (cases "int (length chosen) = plan_size req")
      case True
      with False ev show ?thesis by (simp add: backtrack.simps [of req cands start_idx chosen])
    next
      case neq: False
      have "recorded req cands (backtrack_from req cands start_idx chosen used (evaluate_plan req chosen st))"
        using "1.IH" [OF False refl neq ev "1.prems"(2)] .
      with False neq show ?thesis by (simp add: backtrack.simps [of req cands start_idx chosen])
    qed
  qed
next
  case (2 req cands i chosen used st)
  show ?case
  proof (cases "i < length cands")
    case False
    then show ?thesis using "2.prems" by (simp add: backtrack_from.simps [of req cands i chosen])
  next
    case True
    let ?c = "cands ! i"
    let ?new = "set (missing (snd (snd ?c))) - used"
    show ?thesis
    proof (cases "int (card ?new) > max_missing req")
      case prune: True
      have "recorded req cands (backtrack_from req cands (i + 1) chosen used st)"
        using "2.IH"(1) [OF True refl refl prune "2.prems"] .
      with True prune show ?thesis
        by (simp add: backtrack_from.simps [of req cands i chosen] Let_def)
    next
      case keep: False
      have sub: "set (chosen @ [?c]) \<subseteq> set cands" using "2.prems"(2) True by simp
      have inner: "recorded req cands
          (backtrack req cands (i + 1) (chosen @ [?c]) (used \<union> set (covered (snd (snd ?c)))) st)"
        using "2.IH"(2) [OF True refl refl keep "2.prems"(1) sub] .
      have "recorded req cands (backtrack_from req cands (i + 1) chosen used
          (backtrack req cands (i + 1) (chosen @ [?c]) (used \<union> set (covered (snd (snd ?c)))) st))"
        using "2.IH"(3) [OF True refl refl keep inner "2.prems"(2)] .
      with True keep show ?thesis
        by (simp add: backtrack_from.simps [of req cands i chosen] Let_def)
    qed
  qed
qed


lemma details_lookup_budget:
  assumes "\<forall>x \<in> set xs. int (length (missing (snd (snd x)))) \<le> mm" and "0 \<le> mm"
  shows "int (length (missing (dict_get (map_of (details_of xs)) recipe_id
            \<lparr>missing = [], covered = [], subs = []\<rparr>))) \<le> mm"
proof (cases "map_of (details_of xs) recipe_id")
  case None
  with assms(2) show ?thesis by (simp add: dict_get_def)
next
  case (Some det)
  then have "(recipe_id, det) \<in> set (map (\<lambda>c. (fst c, snd (snd c))) xs)"
    unfolding details_of_def by (rule dict_of_SomeD)
  then obtain x where "x \<in> set xs" "det = snd (snd x)" by auto
  with assms(1) Some show ?thesis by (simp add: dict_get_def)
qed

lemma build_suggestions_ok:
  "set ids \<subseteq> fst ` set (recipes eng) \<Longrightarrow>
   \<exists>ss. build_suggestions eng d ids = Inr ss \<and> map s_id ss = ids \<and>
        (\<forall>s \<in> set ss. s_missing s =
           missing (dict_get (map_of d) (s_id s) \<lparr>missing = [], covered = [], subs = []\<rparr>))"
proof (induction ids)
  case Nil
  show ?case by simp
next
  case (Cons recipe_id ids)
  from Cons.prems have "map_of (recipes eng) recipe_id \<noteq> None"
    by (simp add: map_of_eq_None_iff)
  then obtain r where r: "map_of (recipes eng) recipe_id = Some r" by auto
  from Cons obtain ss where ss: "build_suggestions eng d ids = Inr ss" "map s_id ss = ids"
    "\<forall>s \<in> set ss. s_missing s =
       missing (dict_get (map_of d) (s_id s) \<lparr>missing = [], covered = [], subs = []\<rparr>)"
    by auto
  show ?case using r ss by (simp add: make_suggestion_def Let_def)
qed

lemma select_plan_shape:
  assumes "recorded req cands st"
  shows "\<exists>xs. set xs \<subseteq> set cands \<and> select_plan req cands st = (map fst xs, details_of xs)"
proof (cases "best_plan st = []")
  case True
  then have "select_plan req cands st =
      (map fst (slice_to (max_suggestions req) cands), details_of (slice_to (max_suggestions req) cands))"
    by (simp add: select_plan_def)
  then show ?thesis
    by (intro exI [of _ "slice_to (max_suggestions req) cands"]) (simp add: slice_to_subset)
next
  case False
  with assms obtain chosen where "set chosen \<subseteq> set cands" "best_plan st = map fst chosen"
    "best_plan_details st = details_of chosen"
    by (auto simp: recorded_def)
  with False show ?thesis
    by (intro exI [of _ chosen]) (simp add: select_plan_def)
qed

lemma initial_recorded: "recorded req cands initial_state"
  by (simp add: recorded_def initial_state_def)

text \<open>
  Claim C1. With \<open>max_missing \<ge> 0\<close>, \<^verbatim>\<open>suggest_recipes\<close> returns a response, every
  suggestion in it lists at most \<open>max_missing\<close> missing ingredients, and a non-empty
  best plan left by the search consists of shortlist entries whose aggregated missing
  set has at most \<open>max_missing\<close> elements.
\<close>

theorem suggestions_respect_missing_budget:
  assumes "0 \<le> max_missing req"
  shows "\<exists>cands resp.
      top_candidates eng req = Inr cands \<and> suggest_recipes eng req = Inr resp \<and>
      (\<forall>s \<in> set (suggestions resp). int (length (s_missing s)) \<le> max_missing req) \<and>
      (best_plan (backtrack req cands 0 [] {} initial_state) \<noteq> [] \<longrightarrow>
         (\<exists>chosen. set chosen \<subseteq> set cands \<and>
            best_plan (backtrack req cands 0 [] {} initial_state) = map fst chosen \<and>
            best_plan_details (backtrack req cands 0 [] {} initial_state) = details_of chosen \<and>
            int (card (plan_missing chosen)) \<le> max_missing req))"
proof -
  obtain cands where cands: "top_candidates eng req = Inr cands"
    by (simp add: top_candidates_eq)
  let ?st = "backtrack req cands 0 [] {} initial_state"
  have rec: "recorded req cands ?st"
    by (rule backtrack_recorded(1) [OF initial_recorded]) simp
  from select_plan_shape [OF rec] obtain xs where
    xs: "set xs \<subseteq> set cands" "select_plan req cands ?st = (map fst xs, details_of xs)"
    by blast
  have "set (slice_to (max_suggestions req) (map fst xs)) \<subseteq> fst ` set cands"
    using slice_to_subset [of "max_suggestions req" "map fst xs"] xs(1) by auto
  then have "set (slice_to (max_suggestions req) (map fst xs)) \<subseteq> fst ` set (recipes eng)"
    using shortlist_ids [OF cands] by blast
  from build_suggestions_ok [OF this, of "details_of xs"] obtain ss where
    ss: "build_suggestions eng (details_of xs) (slice_to (max_suggestions req) (map fst xs)) = Inr ss"
      "\<forall>s \<in> set ss. s_missing s =
         missing (dict_get (map_of (details_of xs)) (s_id s) \<lparr>missing = [], covered = [], subs = []\<rparr>)"
    by blast
  let ?resp = "\<lparr>suggestions = ss, r_plan_size = plan_size req, r_max_missing = max_missing req\<rparr>"
  have resp: "suggest_recipes eng req = Inr ?resp"
    by (simp add: suggest_recipes_def cands xs(2) ss(1))
  have budget: "\<forall>x \<in> set xs. int (length (missing (snd (snd x)))) \<le> max_missing req"
    using xs(1) shortlist_budget [OF cands] by blast
  have within: "\<forall>s \<in> set (suggestions ?resp). int (length (s_missing s)) \<le> max_missing req"
    using ss(2) details_lookup_budget [OF budget assms] by simp
  have plan: "best_plan ?st \<noteq> [] \<longrightarrow>
      (\<exists>chosen. set chosen \<subseteq> set cands \<and> best_plan ?st = map fst chosen \<and>
         best_plan_details ?st = details_of chosen \<and>
         int (card (plan_missing chosen)) \<le> max_missing req)"
    using rec unfolding recorded_def by blast
  show ?thesis
    by (intro exI [of _ cands] exI [of _ ?resp] conjI cands resp within plan)
qed

theorem suggestions_respect_missing_budget_witness:
  "0 \<le> max_missing example_request \<and>
   (\<exists>resp. suggest_recipes example_engine example_request = Inr resp \<and>
      map s_id (suggestions resp) = [''R1''] \<and>
      list_all (\<lambda>s. int (length (s_missing s)) \<le> max_missing example_request) (suggestions resp))"
proof -
  have h: "0 \<le> max_missing example_request" by (simp add: example_request_def)
  from suggestions_respect_missing_budget [OF h, of example_engine] obtain resp where
    resp: "suggest_recipes example_engine example_request = Inr resp"
      "\<forall>s \<in> set (suggestions resp). int (length (s_missing s)) \<le> max_missing example_request"
    by blast
  have "case suggest_recipes example_engine example_request of
      Inl e \<Rightarrow> False | Inr r \<Rightarrow> map s_id (suggestions r) = [''R1'']"
    by code_simp
  with resp(1) have "map s_id (suggestions resp) = [''R1'']" by simp
  with h resp show ?thesis by (auto simp: list_all_iff)
qed

subsection \<open>Stage 2: plans that do not beat the best score\<close>















subsection \<open>Plans of one recipe\<close>











end
